theory Spec2Isabelle
  imports Main
begin

section \<open>objdump_to_bindump: hex instruction bytes rendered in binary\<close>

text \<open>
  The program reads the output of \<^verbatim>\<open>objdump -d\<close> line by line. A line whose first tab
  follows a colon carries the hex bytes of an instruction; they are replaced by binary
  digits. Everything below is a model of \<^verbatim>\<open>src/objdump_to_bindump.cpp\<close>. A
  \<^verbatim>\<open>std::string\<close> is a \<^typ>\<open>string\<close>, a \<^verbatim>\<open>size_t\<close> is a \<^typ>\<open>nat\<close> with the
  wrap-around modulo \<open>2 ^ 64\<close> written out where the source subtracts.
\<close>

subsection \<open>Characters\<close>

abbreviation TAB :: char where
  "TAB \<equiv> CHR 0x09"

abbreviation COLON :: char where
  "COLON \<equiv> CHR '':''"

text \<open>
  \<^verbatim>\<open>isspace\<close> of the C locale: space, and the five controls from tab to carriage return.
  No other byte is a space.
\<close>

definition isspace :: "char \<Rightarrow> bool" where
  "isspace c = (c = CHR 0x20 \<or> c = CHR 0x09 \<or> c = CHR 0x0A \<or> c = CHR 0x0B
                 \<or> c = CHR 0x0C \<or> c = CHR 0x0D)"

text \<open>
  Lines 127 to 130: one character is written to a stream in \<^verbatim>\<open>std::hex\<close> mode and read
  back as an \<^verbatim>\<open>int\<close>. The extraction succeeds on exactly the 22 hexadecimal digits.
  On any other character it fails, and a failed extraction stores zero in
  \<^verbatim>\<open>value\<close> (C++11 [facet.num.get.virtuals] stage 3; libstdc++ does so in every
  language mode).
\<close>

definition hex_digit :: "char \<Rightarrow> nat option" where
  "hex_digit c =
     (let n = (of_char c :: nat) in
      if 48 \<le> n \<and> n \<le> 57 then Some (n - 48)
      else if 97 \<le> n \<and> n \<le> 102 then Some (n - 87)
      else if 65 \<le> n \<and> n \<le> 70 then Some (n - 55)
      else None)"

definition extract_hex :: "char \<Rightarrow> nat" where
  "extract_hex c = (case hex_digit c of Some v \<Rightarrow> v | None \<Rightarrow> 0)"

text \<open>
  \<^verbatim>\<open>os << value % 2\<close> prints the integer \<open>value % 2\<close> in decimal; \<^verbatim>\<open>value\<close> is never
  negative, so this is one of the digits 0 and 1.
\<close>

definition put_bit :: "nat \<Rightarrow> char" where
  "put_bit v = (if v mod 2 = 0 then CHR ''0'' else CHR ''1'')"

text \<open>
  Lines 131 to 134, \<^verbatim>\<open>for(int i = 0; i < 4; i++){ os << value % 2; value /= 2; }\<close>:
  the first argument counts the iterations that remain, the last is the text of \<^verbatim>\<open>os\<close>.
\<close>

fun bits_loop :: "nat \<Rightarrow> nat \<Rightarrow> string \<Rightarrow> string" where
  "bits_loop 0 v os = os"
| "bits_loop (Suc n) v os = bits_loop n (v div 2) (os @ [put_bit v])"

text \<open>Lines 127 to 136: the text appended to \<^verbatim>\<open>bin_part\<close> for a character that is not a space.\<close>

definition convert_char :: "char \<Rightarrow> string" where
  "convert_char c = rev (bits_loop 4 (extract_hex c) [])"

subsection \<open>The transcoding loop\<close>

text \<open>
  Lines 126 to 140, the body of the inner loop at position \<^verbatim>\<open>cur_pos\<close>. The test
  \<^verbatim>\<open>cur_pos < hex_part.size()\<close> guards the read of \<^verbatim>\<open>hex_part[cur_pos]\<close>.
\<close>

definition convert_at :: "string \<Rightarrow> nat \<Rightarrow> string" where
  "convert_at hex_part cur_pos =
     (if cur_pos < length hex_part \<and> \<not> isspace (hex_part ! cur_pos)
      then convert_char (hex_part ! cur_pos)
      else ''    '')"

text \<open>
  Line 125, \<^verbatim>\<open>for(int tlen = 0; tlen < 2; tlen++, cur_pos++)\<close>. The state is the pair of
  \<^verbatim>\<open>cur_pos\<close> and \<^verbatim>\<open>bin_part\<close>; the counter is not read by the body, so the model counts
  the iterations that remain.
\<close>

fun tlen_loop :: "string \<Rightarrow> nat \<Rightarrow> nat \<times> string \<Rightarrow> nat \<times> string" where
  "tlen_loop hex_part 0 st = st"
| "tlen_loop hex_part (Suc n) (cur_pos, bin_part) =
     tlen_loop hex_part n (cur_pos + 1, bin_part @ convert_at hex_part cur_pos)"

text \<open>
  Lines 124 to 144, \<^verbatim>\<open>for(int token = 0; token < 7; token++)\<close>: two characters are
  converted, a space is appended and one more position is stepped over.
\<close>

fun token_loop :: "string \<Rightarrow> nat \<Rightarrow> nat \<times> string \<Rightarrow> nat \<times> string" where
  "token_loop hex_part 0 st = st"
| "token_loop hex_part (Suc n) st =
     (case tlen_loop hex_part 2 st of
        (cur_pos, bin_part) \<Rightarrow> token_loop hex_part n (cur_pos + 1, bin_part @ '' ''))"

text \<open>Lines 121 to 144: \<^verbatim>\<open>bin_part\<close> after the loops, from \<^verbatim>\<open>cur_pos = 0\<close> and the empty string.\<close>

definition transcode :: "string \<Rightarrow> string" where
  "transcode hex_part = snd (token_loop hex_part 7 (0, []))"

subsection \<open>Strings and positions\<close>

abbreviation NL :: char where
  "NL \<equiv> CHR 0x0A"

text \<open>
  \<^verbatim>\<open>std::string::npos\<close>, the largest \<^verbatim>\<open>size_t\<close>. Subtraction and addition of
  \<^verbatim>\<open>size_t\<close> wrap modulo \<open>2 ^ 64\<close>.
\<close>

definition npos :: nat where
  "npos = 2 ^ 64 - 1"

definition size_sub :: "nat \<Rightarrow> nat \<Rightarrow> nat" where
  "size_sub a b = (a + 2 ^ 64 - b) mod 2 ^ 64"

definition size_add :: "nat \<Rightarrow> nat \<Rightarrow> nat" where
  "size_add a b = (a + b) mod 2 ^ 64"

text \<open>
  What the source can do wrong with a string: \<^verbatim>\<open>operator[]\<close> beyond the terminator is
  undefined behaviour, \<^verbatim>\<open>substr\<close> from beyond the end throws \<^verbatim>\<open>std::out_of_range\<close>,
  which nothing catches. Each carries the offending position.
\<close>

datatype fault = OutOfBounds nat | OutOfRange nat

text \<open>
  \<^verbatim>\<open>s.find("\t", pos)\<close>: the index of the first occurrence at or after \<^verbatim>\<open>pos\<close>;
  \<open>None\<close> stands for \<^verbatim>\<open>npos\<close>.
\<close>

primrec find_char :: "char \<Rightarrow> string \<Rightarrow> nat option" where
  "find_char c [] = None"
| "find_char c (x # xs) = (if x = c then Some 0 else map_option Suc (find_char c xs))"

definition find_from :: "string \<Rightarrow> char \<Rightarrow> nat \<Rightarrow> nat option" where
  "find_from s c pos = map_option (\<lambda>i. pos + i) (find_char c (drop pos s))"

text \<open>
  \<^verbatim>\<open>s[i]\<close>: a character of the string, the terminating zero at \<^verbatim>\<open>i == s.size()\<close>,
  undefined beyond.
\<close>

definition string_at :: "string \<Rightarrow> nat \<Rightarrow> fault + char" where
  "string_at s i =
     (if i < length s then Inr (s ! i)
      else if i = length s then Inr (CHR 0x00)
      else Inl (OutOfBounds i))"

text \<open>\<^verbatim>\<open>s.substr(pos, n)\<close>: at most \<^verbatim>\<open>n\<close> characters from \<^verbatim>\<open>pos\<close>.\<close>

definition substr :: "string \<Rightarrow> nat \<Rightarrow> nat \<Rightarrow> fault + string" where
  "substr s pos n = (if length s < pos then Inl (OutOfRange pos) else Inr (take n (drop pos s)))"

subsection \<open>One line\<close>

text \<open>
  Lines 108 and 109, the test \<^verbatim>\<open>pos == npos || line[pos-1] != ':'\<close>. When it holds the
  line is passed through or dropped; otherwise the hex of the line is converted, and
  \<open>Instruction\<close> keeps \<^verbatim>\<open>pos\<close>, the index of the first tab. The index \<^verbatim>\<open>pos-1\<close> is
  computed in \<^verbatim>\<open>size_t\<close>.
\<close>

datatype line_class = Plain | Instruction nat

definition classify :: "string \<Rightarrow> fault + line_class" where
  "classify line =
     (case find_from line TAB 0 of
        None \<Rightarrow> Inr Plain
      | Some pos \<Rightarrow>
          (case string_at line (size_sub pos 1) of
             Inl f \<Rightarrow> Inl f
           | Inr c \<Rightarrow> if c \<noteq> COLON then Inr Plain else Inr (Instruction pos)))"

text \<open>
  Lines 114 to 147, the \<^verbatim>\<open>else\<close> branch, from the index \<open>tab\<close> of the first tab to
  the text written to \<^verbatim>\<open>std::cout\<close>. The two \<^verbatim>\<open>substr\<close> calls that print the header
  and the rest of the line are made in full-output mode only.
\<close>

definition convert_line :: "bool \<Rightarrow> string \<Rightarrow> nat \<Rightarrow> fault + string" where
  "convert_line full_output line tab =
     (let pos = size_add tab 1 in
      case (if full_output then substr line 0 pos else Inr []) of
        Inl f \<Rightarrow> Inl f
      | Inr header \<Rightarrow>
          (let end_pos = (case find_from line TAB pos of
                            None \<Rightarrow> size_sub (length line) 1
                          | Some e \<Rightarrow> e) in
           case substr line pos (size_add (size_sub end_pos pos) 1) of
             Inl f \<Rightarrow> Inl f
           | Inr hex_part \<Rightarrow>
               (case (if full_output then substr line end_pos npos else Inr []) of
                  Inl f \<Rightarrow> Inl f
                | Inr rest \<Rightarrow> Inr (header @ transcode hex_part @ rest @ [NL]))))"

text \<open>Lines 108 to 148, the body of the reading loop: the text one line adds to the output.\<close>

definition process_line :: "bool \<Rightarrow> string \<Rightarrow> fault + string" where
  "process_line full_output line =
     (case classify line of
        Inl f \<Rightarrow> Inl f
      | Inr Plain \<Rightarrow> Inr (if full_output then line @ [NL] else [])
      | Inr (Instruction tab) \<Rightarrow> convert_line full_output line tab)"

subsection \<open>The file and the command line\<close>

text \<open>
  \<^verbatim>\<open>getline(fin, line)\<close> on the unread rest of the file: it fails at the end of the
  file; otherwise it yields the characters before the next newline and leaves what follows
  that newline, or nothing when the file ends without one.
\<close>

definition getline :: "string \<Rightarrow> (string \<times> string) option" where
  "getline fin =
     (if fin = [] then None
      else Some (takeWhile (\<lambda>c. c \<noteq> NL) fin, drop 1 (dropWhile (\<lambda>c. c \<noteq> NL) fin)))"

text \<open>
  Lines 102 to 149, \<^verbatim>\<open>while(getline(fin, line))\<close>, with the text written to
  \<^verbatim>\<open>std::cout\<close> so far as the last argument.
\<close>

function read_loop :: "bool \<Rightarrow> string \<Rightarrow> string \<Rightarrow> fault + string" where
  "read_loop full_output fin cout =
     (case getline fin of
        None \<Rightarrow> Inr cout
      | Some (line, rest) \<Rightarrow>
          (case process_line full_output line of
             Inl f \<Rightarrow> Inl f
           | Inr written \<Rightarrow> read_loop full_output rest (cout @ written)))"
  by pat_completeness auto
termination
proof (relation "measure (\<lambda>(full_output, fin, cout). length fin)")
  show "wf (measure (\<lambda>(full_output, fin, cout). length fin))"
    by simp
next
  fix full_output :: bool and fin cout :: string and x2 line rest written
  assume "getline fin = Some x2" and "(line, rest) = x2"
  then have "fin \<noteq> []" and "rest = drop 1 (dropWhile (\<lambda>c. c \<noteq> NL) fin)"
    by (auto simp: getline_def split: if_splits)
  moreover have "length (dropWhile (\<lambda>c. c \<noteq> NL) fin) \<le> length fin"
    by (rule length_dropWhile_le)
  ultimately have "length rest < length fin"
    by (cases fin) auto
  then show "((full_output, rest, cout @ written), full_output, fin, cout)
             \<in> measure (\<lambda>(full_output, fin, cout). length fin)"
    by simp
qed

text \<open>What a run of the program leaves behind: both streams and the exit code.\<close>

record outcome =
  stdout :: string
  stderr :: string
  exit_code :: int

text \<open>
  The files that can be opened, as pairs of a name and the content; a name that is not
  listed cannot be opened.
\<close>

type_synonym files = "(string \<times> string) list"

text \<open>Lines 92 to 153.\<close>

definition process_objdump_file :: "files \<Rightarrow> string \<Rightarrow> bool \<Rightarrow> fault + outcome" where
  "process_objdump_file fs filename full_output =
     (case map_of fs filename of
        None \<Rightarrow>
          Inr \<lparr>stdout = [], stderr = ''Failed to open '' @ filename @ '' for input.\<newline>'',
               exit_code = 1\<rparr>
      | Some contents \<Rightarrow>
          (case read_loop full_output contents [] of
             Inl f \<Rightarrow> Inl f
           | Inr written \<Rightarrow> Inr \<lparr>stdout = written, stderr = [], exit_code = 0\<rparr>))"

definition usage_text :: string where
  "usage_text =
     ''Usage: \<newline>'' @
     ''     objdump_to_hexdump [-b] objdump_output_file\<newline>'' @
     ''      \<newline>'' @
     ''     Options: \<newline>'' @
     ''         -b      Produce only the binary output (remove other \<newline>'' @
     ''                 information from the objdump output)\<newline>'' @
     ''         \<newline>'' @
     ''     Note:\<newline>'' @
     ''         Use with the `-b` flag to strip everything except the binary\<newline>'' @
     ''         output.  All other data from the original objdump_output_file\<newline>'' @
     ''         is ignored.\<newline>\<newline>\<newline>''"

text \<open>
  Lines 66 to 81. \<^verbatim>\<open>usage\<close> ends the process with \<^verbatim>\<open>exit\<close>, so its value is the
  outcome of the whole run. In line 67, \<^verbatim>\<open>std::cout << msg << msg != "" ? "\n\n" : ""\<close>,
  the shift operators bind tighter than \<^verbatim>\<open>!=\<close> and the conditional: the message is
  written twice and neither string of the conditional is written.
\<close>

definition usage :: "string \<Rightarrow> outcome" where
  "usage msg =
     \<lparr>stdout = msg @ msg @ usage_text, stderr = [], exit_code = (if msg \<noteq> [] then 1 else 0)\<rparr>"

text \<open>
  Lines 34 to 59, on the whole of \<^verbatim>\<open>argv\<close>, the name of the program first;
  \<^verbatim>\<open>argc\<close> is its length.
\<close>

definition main :: "files \<Rightarrow> string list \<Rightarrow> fault + outcome" where
  "main fs argv =
     (let argc = length argv in
      if argc < 2 then Inr (usage [])
      else
        let token = argv ! 1 in
        if token \<noteq> ''-b'' \<and> argc > 2 then Inr (usage (''Unknown option: '' @ token))
        else
          let full_output = (token \<noteq> ''-b'');
              i = (if token = ''-b'' then 2 else 1) in
          if i < argc then process_objdump_file fs (argv ! i) full_output
          else Inr (usage ''Missing objdump_output_file.''))"

subsection \<open>Reference notions for the claims\<close>

text \<open>
  The conventional binary numeral of \<open>v\<close> with \<open>w\<close> digits, most significant first: digit
  \<open>i\<close> from the right is bit \<open>i\<close> of \<open>v\<close>.
\<close>

definition msb_first :: "nat \<Rightarrow> nat \<Rightarrow> string" where
  "msb_first w v = map (\<lambda>i. if bit v i then CHR ''1'' else CHR ''0'') (rev [0..<w])"

text \<open>The number a string of binary digits denotes, read most significant digit first.\<close>

definition bin_value :: "string \<Rightarrow> nat" where
  "bin_value ds = foldl (\<lambda>acc d. 2 * acc + (if d = CHR ''1'' then 1 else 0)) 0 ds"

text \<open>
  What one turn of the outer loop appends when it starts at position \<open>p\<close>: the
  conversions of positions \<open>p\<close> and \<open>p + 1\<close> and the separating space.
\<close>

definition slot_at :: "string \<Rightarrow> nat \<Rightarrow> string" where
  "slot_at hex_part p = convert_at hex_part p @ convert_at hex_part (p + 1) @ '' ''"

text \<open>
  The group of four characters for position \<open>i\<close> of the byte field in the words of the
  claims: the binary nibble of a character that is in range and not whitespace, four
  spaces for a position that is absent or holds whitespace.
\<close>

definition nibble_at :: "string \<Rightarrow> nat \<Rightarrow> string" where
  "nibble_at field i =
     (if i < length field \<and> \<not> isspace (field ! i)
      then msb_first 4 (extract_hex (field ! i))
      else replicate 4 (CHR '' ''))"

text \<open>
  A plain line in the words of the specification: a line with no tab, or one whose first
  tab has a character before it that is not a colon.
\<close>

definition plain_line :: "string \<Rightarrow> bool" where
  "plain_line line =
     (case find_char TAB line of
        None \<Rightarrow> True
      | Some pos \<Rightarrow> 0 < pos \<and> line ! (pos - 1) \<noteq> COLON)"

text \<open>The content of a file made of the given lines, each ended by a newline.\<close>

definition unlines :: "string list \<Rightarrow> string" where
  "unlines ls = concat (map (\<lambda>l. l @ [NL]) ls)"

section \<open>Properties\<close>

subsection \<open>One hexadecimal digit\<close>

lemma hex_digit_less_16: "hex_digit c = Some v \<Longrightarrow> v < 16"
  by (auto simp: hex_digit_def Let_def split: if_splits)

lemma bits_loop_4:
  "bits_loop 4 v os = os @ [put_bit v, put_bit (v div 2), put_bit (v div 4), put_bit (v div 8)]"
proof -
  have n: "(4::nat) = Suc (Suc (Suc (Suc 0)))"
    by simp
  have d: "v div 2 div 2 = v div 4" "v div 4 div 2 = v div 8"
    by (simp_all add: div_mult2_eq [symmetric])
  show ?thesis
    unfolding n by (simp add: d)
qed

lemma convert_char_bits:
  "convert_char c =
     [put_bit (extract_hex c div 8), put_bit (extract_hex c div 4),
      put_bit (extract_hex c div 2), put_bit (extract_hex c)]"
  by (simp add: convert_char_def bits_loop_4)

lemma put_bit_div: "put_bit (v div 2 ^ i) = (if bit v i then CHR ''1'' else CHR ''0'')"
  by (simp add: put_bit_def bit_iff_odd even_iff_mod_2_eq_zero)

lemma msb_first_4:
  "msb_first 4 v = [put_bit (v div 8), put_bit (v div 4), put_bit (v div 2), put_bit v]"
proof -
  have "rev [0..<4] = [3, 2, 1, 0::nat]"
    by (simp add: upt_rec)
  moreover have "put_bit (v div 8) = (if bit v 3 then CHR ''1'' else CHR ''0'')"
    using put_bit_div [of v 3] by simp
  moreover have "put_bit (v div 4) = (if bit v 2 then CHR ''1'' else CHR ''0'')"
    using put_bit_div [of v 2] by simp
  moreover have "put_bit (v div 2) = (if bit v 1 then CHR ''1'' else CHR ''0'')"
    using put_bit_div [of v 1] by simp
  moreover have "put_bit v = (if bit v 0 then CHR ''1'' else CHR ''0'')"
    using put_bit_div [of v 0] by simp
  ultimately show ?thesis
    by (simp add: msb_first_def)
qed

lemma bin_value_4:
  assumes "v < 16"
  shows "bin_value [put_bit (v div 8), put_bit (v div 4), put_bit (v div 2), put_bit v] = v"
proof -
  have "v = 0 \<or> v = 1 \<or> v = 2 \<or> v = 3 \<or> v = 4 \<or> v = 5 \<or> v = 6 \<or> v = 7 \<or> v = 8 \<or> v = 9
        \<or> v = 10 \<or> v = 11 \<or> v = 12 \<or> v = 13 \<or> v = 14 \<or> v = 15"
    using assms by arith
  then show ?thesis
    by (elim disjE) (simp_all add: bin_value_def put_bit_def)
qed

text \<open>
  C6. For a character that is a hexadecimal digit, the four characters the code emits are
  the binary numeral of its value between 0 and 15, most significant bit first: they are
  the conventional numeral, they are binary digits, and read as a binary number they give
  the value back. The digit \<open>a\<close> yields \<open>1010\<close>.
\<close>

theorem convert_char_msb_first:
  assumes "hex_digit c = Some v"
  shows "convert_char c = msb_first 4 v \<and> length (convert_char c) = 4
         \<and> bin_value (convert_char c) = v \<and> v < 16
         \<and> convert_char (CHR ''a'') = ''1010''"
proof -
  have v: "extract_hex c = v"
    using assms by (simp add: extract_hex_def)
  have lt: "v < 16"
    using assms by (rule hex_digit_less_16)
  have a: "convert_char (CHR ''a'') = ''1010''"
    by (simp add: convert_char_bits extract_hex_def hex_digit_def put_bit_def)
  show ?thesis
    using v lt a bin_value_4 [OF lt] by (simp add: convert_char_bits msb_first_4)
qed

theorem convert_char_msb_first_witness:
  "hex_digit (CHR ''d'') = Some 13 \<and> convert_char (CHR ''d'') = ''1101''
   \<and> bin_value ''1101'' = 13"
proof -
  have h: "hex_digit (CHR ''d'') = Some 13"
    by (simp add: hex_digit_def)
  have m: "msb_first 4 13 = ''1101''"
    by code_simp
  have b: "bin_value ''1101'' = 13"
    by (simp add: bin_value_def)
  show ?thesis
    using convert_char_msb_first [OF h] h m b by simp
qed

subsection \<open>The rendering in closed form\<close>

lemma tlen_loop_2:
  "tlen_loop h 2 (p, b) = (p + 2, b @ convert_at h p @ convert_at h (p + 1))"
  by (simp add: numeral_2_eq_2)

lemma token_loop_Suc:
  "token_loop h (Suc n) (p, b) = token_loop h n (p + 3, b @ slot_at h p)"
  by (simp add: tlen_loop_2 slot_at_def numeral_3_eq_3)

lemma concat_map_upt_Suc:
  "concat (map F [0..<Suc n]) = F 0 @ concat (map (\<lambda>k. F (Suc k)) [0..<n])"
proof -
  have "[0..<Suc n] = 0 # map Suc [0..<n]"
    by (simp add: upt_conv_Cons map_Suc_upt del: upt_Suc)
  then show ?thesis
    by (simp add: comp_def del: upt_Suc)
qed

lemma token_loop_closed:
  "token_loop h n (p, b) = (p + 3 * n, b @ concat (map (\<lambda>k. slot_at h (p + 3 * k)) [0..<n]))"
proof (induction n arbitrary: p b)
  case 0
  show ?case by simp
next
  case (Suc n)
  have "token_loop h (Suc n) (p, b) = token_loop h n (p + 3, b @ slot_at h p)"
    by (rule token_loop_Suc)
  also have "\<dots> = (p + 3 + 3 * n,
      (b @ slot_at h p) @ concat (map (\<lambda>k. slot_at h (p + 3 + 3 * k)) [0..<n]))"
    by (rule Suc.IH)
  also have "\<dots> = (p + 3 * Suc n, b @ concat (map (\<lambda>k. slot_at h (p + 3 * k)) [0..<Suc n]))"
    unfolding concat_map_upt_Suc [of "\<lambda>k. slot_at h (p + 3 * k)" n]
    by (simp add: add.assoc)
  finally show ?case .
qed

lemma transcode_closed_form: "transcode h = concat (map (\<lambda>k. slot_at h (3 * k)) [0..<7])"
  by (simp add: transcode_def token_loop_closed)

lemma length_convert_at: "length (convert_at h p) = 4"
  by (simp add: convert_at_def convert_char_bits)

lemma length_slot_at: "length (slot_at h p) = 9"
  by (simp add: slot_at_def length_convert_at)

lemma length_concat_blocks:
  "(\<And>i. i < n \<Longrightarrow> length (f i) = m) \<Longrightarrow> length (concat (map f [0..<n])) = m * n"
  by (induction n) simp_all

lemma block_of_concat:
  assumes "\<And>i. i < n \<Longrightarrow> length (f i) = m" and "k < n"
  shows "take m (drop (m * k) (concat (map f [0..<n]))) = f k"
  using assms
proof (induction n)
  case 0
  then show ?case by simp
next
  case (Suc n)
  have len: "length (concat (map f [0..<n])) = m * n"
    using Suc.prems(1) by (simp add: length_concat_blocks)
  have last: "length (f n) = m"
    using Suc.prems(1) by simp
  show ?case
  proof (cases "k < n")
    case True
    then have "m * Suc k \<le> m * n"
      by (intro mult_le_mono2) simp
    then have le: "m * k + m \<le> m * n"
      by simp
    have ih: "take m (drop (m * k) (concat (map f [0..<n]))) = f k"
      using Suc.IH Suc.prems(1) True by simp
    from le have "m * k \<le> m * n" "m \<le> m * n - m * k"
      by arith+
    with ih len show ?thesis
      by simp
  next
    case False
    with Suc.prems have "k = n" by simp
    with last len show ?thesis
      by simp
  qed
qed

lemma length_transcode: "length (transcode h) = 63"
  using length_concat_blocks [of 7 "\<lambda>k. slot_at h (3 * k)" 9]
  by (simp add: transcode_closed_form length_slot_at)

lemma transcode_block: "k < 7 \<Longrightarrow> take 9 (drop (9 * k) (transcode h)) = slot_at h (3 * k)"
  using block_of_concat [of 7 "\<lambda>k. slot_at h (3 * k)" 9 k]
  by (simp add: transcode_closed_form length_slot_at)


lemma replicate_4: "replicate 4 x = [x, x, x, x]"
  by (simp add: numeral_eq_Suc)

lemma convert_at_nibble: "convert_at h i = nibble_at h i"
  by (simp add: convert_at_def nibble_at_def convert_char_bits msb_first_4 replicate_4)

lemma put_bit_double: "put_bit (2 * x + y) = put_bit y"
  by (simp add: put_bit_def)

lemma msb_first_8:
  "msb_first 8 v = [put_bit (v div 128), put_bit (v div 64), put_bit (v div 32), put_bit (v div 16),
     put_bit (v div 8), put_bit (v div 4), put_bit (v div 2), put_bit v]"
proof -
  have "rev [0..<8] = [7, 6, 5, 4, 3, 2, 1, 0::nat]"
    by (simp add: upt_rec)
  moreover have "(if bit v i then CHR ''1'' else CHR ''0'') = put_bit (v div 2 ^ i)" for i
    by (simp add: put_bit_div)
  ultimately show ?thesis
    by (simp add: msb_first_def)
qed

lemma byte_high:
  assumes "b < (16::nat)"
  shows "(16 * a + b) div 128 = a div 8" "(16 * a + b) div 64 = a div 4"
    "(16 * a + b) div 32 = a div 2" "(16 * a + b) div 16 = a"
  using assms by arith+

lemma byte_low:
  "put_bit ((16 * a + b) div 8) = put_bit (b div 8)"
  "put_bit ((16 * a + b) div 4) = put_bit (b div 4)"
  "put_bit ((16 * a + b) div 2) = put_bit (b div 2)"
  "put_bit (16 * a + b) = put_bit b"
proof -
  have "(16 * a + b) div 8 = 2 * a + b div 8"
    by arith
  then show "put_bit ((16 * a + b) div 8) = put_bit (b div 8)"
    by (simp only: put_bit_double)
  have "(16 * a + b) div 4 = 2 * (2 * a) + b div 4"
    by arith
  then show "put_bit ((16 * a + b) div 4) = put_bit (b div 4)"
    by (simp only: put_bit_double)
  have "(16 * a + b) div 2 = 2 * (4 * a) + b div 2"
    by arith
  then show "put_bit ((16 * a + b) div 2) = put_bit (b div 2)"
    by (simp only: put_bit_double)
  have "16 * a + b = 2 * (8 * a) + b"
    by arith
  then show "put_bit (16 * a + b) = put_bit b"
    by (simp only: put_bit_double)
qed

lemma msb_first_byte:
  assumes "b < 16"
  shows "msb_first 8 (16 * a + b) = msb_first 4 a @ msb_first 4 b"
  unfolding msb_first_8 msb_first_4 byte_high [OF assms] byte_low
  by simp

lemma hex_digit_not_space: "hex_digit c = Some v \<Longrightarrow> \<not> isspace c"
  by (auto simp: hex_digit_def isspace_def Let_def split: if_splits)

lemma set_convert_at: "set (convert_at h p) \<subseteq> {CHR ''0'', CHR ''1'', CHR '' ''}"
  by (simp add: convert_at_def convert_char_bits put_bit_def)

lemma transcode_nth:
  assumes "k < 7" and "j < 9"
  shows "transcode h ! (9 * k + j) = slot_at h (3 * k) ! j"
proof -
  have "9 * k \<le> length (transcode h)"
    using assms(1) by (simp add: length_transcode)
  then have "transcode h ! (9 * k + j) = take 9 (drop (9 * k) (transcode h)) ! j"
    using assms(2) by simp
  then show ?thesis
    using assms(1) by (simp add: transcode_block)
qed

lemma slot_at_separator: "slot_at h p ! 8 = CHR '' ''"
  by (simp add: slot_at_def nth_append length_convert_at)

lemma slot_at_alphabet:
  assumes "j < 8"
  shows "slot_at h p ! j \<in> {CHR ''0'', CHR ''1'', CHR '' ''}"
proof -
  have "slot_at h p ! j \<in> set (convert_at h p) \<union> set (convert_at h (p + 1))"
    using assms by (auto simp: slot_at_def nth_append length_convert_at)
  then show ?thesis
    using set_convert_at [of h p] set_convert_at [of h "p + 1"] by blast
qed

lemma convert_at_absent: "length h \<le> p \<Longrightarrow> convert_at h p = ''    ''"
  by (simp add: convert_at_def)

lemma transcode_group:
  assumes "k < 7"
  shows "take 8 (drop (9 * k) (transcode h)) = convert_at h (3 * k) @ convert_at h (3 * k + 1)"
proof -
  have "take 8 (drop (9 * k) (transcode h)) = take 8 (take 9 (drop (9 * k) (transcode h)))"
    by simp
  also have "\<dots> = take 8 (slot_at h (3 * k))"
    using assms by (simp only: transcode_block)
  also have "\<dots> = convert_at h (3 * k) @ convert_at h (3 * k + 1)"
    by (simp add: slot_at_def length_convert_at)
  finally show ?thesis .
qed

text \<open>
  C9. The transcoding loop converts both character positions of each slot independently:
  the rendering is, for each of the seven slots, the nibble of position \<open>3k\<close>, the nibble
  of position \<open>3k + 1\<close> and one space, where a position that is in range and not
  whitespace gives its four binary digits, most significant first, and any other position
  gives four spaces. Every slot so contributes nine characters and the rendering has
  exactly 63. A token of two hexadecimal digits is rendered as the eight binary digits of
  the byte. (A character that is neither whitespace nor a hexadecimal digit is extracted
  as zero and gives \<open>0000\<close>.)
\<close>

theorem transcode_both_positions:
  "transcode h = concat (map (\<lambda>k. nibble_at h (3 * k) @ nibble_at h (3 * k + 1) @ '' '') [0..<7])
   \<and> length (transcode h) = 63
   \<and> (\<forall>k<7. \<forall>a b. 3 * k + 1 < length h \<and> hex_digit (h ! (3 * k)) = Some a
          \<and> hex_digit (h ! (3 * k + 1)) = Some b
        \<longrightarrow> take 8 (drop (9 * k) (transcode h)) = msb_first 8 (16 * a + b))"
proof (intro conjI allI impI)
  show "transcode h = concat (map (\<lambda>k. nibble_at h (3 * k) @ nibble_at h (3 * k + 1) @ '' '') [0..<7])"
    by (simp only: transcode_closed_form slot_at_def convert_at_nibble)
  show "length (transcode h) = 63"
    by (rule length_transcode)
next
  fix k a b
  assume k: "k < 7"
    and h: "3 * k + 1 < length h \<and> hex_digit (h ! (3 * k)) = Some a
            \<and> hex_digit (h ! (3 * k + 1)) = Some b"
  from h have b: "b < 16"
    by (blast intro: hex_digit_less_16)
  from h have "convert_at h (3 * k) = msb_first 4 a"
    using hex_digit_not_space [of "h ! (3 * k)" a]
    by (simp add: convert_at_def convert_char_bits msb_first_4 extract_hex_def)
  moreover from h have "convert_at h (3 * k + 1) = msb_first 4 b"
    using hex_digit_not_space [of "h ! (3 * k + 1)" b]
    by (simp add: convert_at_def convert_char_bits msb_first_4 extract_hex_def)
  ultimately show "take 8 (drop (9 * k) (transcode h)) = msb_first 8 (16 * a + b)"
    using k by (simp only: transcode_group msb_first_byte [OF b])
qed

text \<open>
  C1, as amended. The binary rendering of a byte field is exactly 63 characters, not 35:
  seven groups of eight characters, each a binary digit or a space, each group followed
  by one separating space, whatever the number of tokens in the field; a slot that lies
  beyond the end of the byte field yields a group of eight spaces.
\<close>

theorem transcode_width:
  "length (transcode h) = 63
   \<and> (\<forall>k<7. transcode h ! (9 * k + 8) = CHR '' ''
        \<and> (\<forall>j<8. transcode h ! (9 * k + j) \<in> {CHR ''0'', CHR ''1'', CHR '' ''})
        \<and> (length h \<le> 3 * k \<longrightarrow> take 8 (drop (9 * k) (transcode h)) = replicate 8 (CHR '' '')))"
proof (intro conjI allI impI)
  show "length (transcode h) = 63"
    by (rule length_transcode)
next
  fix k :: nat assume "k < 7"
  then show "transcode h ! (9 * k + 8) = CHR '' ''"
    by (simp add: transcode_nth slot_at_separator)
next
  fix k j :: nat assume "k < 7" "j < 8"
  then show "transcode h ! (9 * k + j) \<in> {CHR ''0'', CHR ''1'', CHR '' ''}"
    using slot_at_alphabet [of j h "3 * k"] by (simp add: transcode_nth)
next
  fix k :: nat assume k: "k < 7" and "length h \<le> 3 * k"
  then have "convert_at h (3 * k) = ''    ''" "convert_at h (3 * k + 1) = ''    ''"
    by (simp_all add: convert_at_absent)
  then have "take 8 (drop (9 * k) (transcode h)) = ''        ''"
    using k by (simp add: transcode_group)
  moreover have "replicate 8 (CHR '' '') = ''        ''"
    by (simp add: numeral_eq_Suc)
  ultimately show "take 8 (drop (9 * k) (transcode h)) = replicate 8 (CHR '' '')"
    by simp
qed

lemma convert_at_update: "p \<noteq> i \<Longrightarrow> convert_at (h[i := c]) p = convert_at h p"
  by (simp add: convert_at_def)

lemma slot_at_update:
  "slot_at (h[3 * k + 2 := c]) (3 * j) = slot_at h (3 * j)"
proof -
  have a: "convert_at (h[3 * k + 2 := c]) (3 * j) = convert_at h (3 * j)"
    by (rule convert_at_update) presburger
  have b: "convert_at (h[3 * k + 2 := c]) (3 * j + 1) = convert_at h (3 * j + 1)"
    by (rule convert_at_update) presburger
  show ?thesis
    unfolding slot_at_def a b ..
qed

lemma transcode_update: "transcode (h[3 * k + 2 := c]) = transcode h"
  by (simp only: transcode_closed_form slot_at_update)

text \<open>
  C2, as amended. The transcoder inspects and converts both characters of every slot, each
  on its own: a character that is present and not whitespace gives its group of four
  binary digits, an absent or whitespace character gives four spaces. Only the third
  position of each stride of three, where the separator stands, is stepped over without
  being read, so its content never changes the rendering. For the byte field
  \<open>4b 8d 05 6f\<close> the first four groups are the eight digits of 4b, 8d, 05 and 6f and
  the last three groups are blank.
\<close>

theorem transcode_slot:
  "(\<forall>k<7. take 9 (drop (9 * k) (transcode h))
              = convert_at h (3 * k) @ convert_at h (3 * k + 1) @ '' ''
          \<and> (\<forall>c. transcode (h[3 * k + 2 := c]) = transcode h))
   \<and> transcode ''4b 8d 05 6f''
       = ''01001011 10001101 00000101 01101111 '' @ replicate 27 (CHR '' '')"
proof (intro conjI allI impI)
  show "transcode ''4b 8d 05 6f''
        = ''01001011 10001101 00000101 01101111 '' @ replicate 27 (CHR '' '')"
    by code_simp
next
  fix k :: nat assume "k < 7"
  then show "take 9 (drop (9 * k) (transcode h))
             = convert_at h (3 * k) @ convert_at h (3 * k + 1) @ '' ''"
    by (simp only: transcode_block slot_at_def)
next
  fix k c
  show "transcode (h[3 * k + 2 := c]) = transcode h"
    by (rule transcode_update)
qed

theorem transcode_slot_witness:
  "(1::nat) < 7 \<and> take 9 (drop 9 (transcode ''4b 8d 05 6f'')) = ''10001101 ''
   \<and> transcode ''4b!8d'' = transcode ''4b 8d''"
proof -
  have a: "convert_at ''4b 8d 05 6f'' 3 = ''1000''" "convert_at ''4b 8d 05 6f'' 4 = ''1101''"
    by code_simp+
  have u: "''4b 8d''[2 := CHR ''!''] = ''4b!8d''"
    by simp
  from transcode_slot [of "''4b 8d 05 6f''", THEN conjunct1, THEN spec [where x = 1]] a
  have "take 9 (drop 9 (transcode ''4b 8d 05 6f'')) = ''10001101 ''"
    by simp
  moreover from transcode_slot [of "''4b 8d''", THEN conjunct1, THEN spec [where x = 0]] u
  have "transcode ''4b!8d'' = transcode ''4b 8d''"
    by simp
  ultimately show ?thesis
    by simp
qed

theorem transcode_width_witness:
  "(6::nat) < 7 \<and> length ''4b 8d 05 6f'' \<le> 3 * 6
   \<and> length (transcode ''4b 8d 05 6f'') = 63
   \<and> transcode ''4b 8d 05 6f'' ! 62 = CHR '' ''
   \<and> take 8 (drop 54 (transcode ''4b 8d 05 6f'')) = replicate 8 (CHR '' '')"
  using transcode_width [of "''4b 8d 05 6f''", THEN conjunct1]
    transcode_width [of "''4b 8d 05 6f''", THEN conjunct2, THEN spec [where x = 6]]
  by simp

theorem transcode_both_positions_witness:
  "(0::nat) < 7 \<and> 3 * 0 + 1 < length ''6f'' \<and> hex_digit (CHR ''6'') = Some 6
   \<and> hex_digit (CHR ''f'') = Some 15
   \<and> take 8 (transcode ''6f'') = ''01101111''"
proof -
  have h: "hex_digit (CHR ''6'') = Some 6" "hex_digit (CHR ''f'') = Some 15"
    by (simp_all add: hex_digit_def)
  have m: "msb_first 8 (16 * 6 + 15) = ''01101111''"
    by code_simp
  from transcode_both_positions [of "''6f''", THEN conjunct2, THEN conjunct2,
      THEN spec [where x = 0]] h m
  have "take 8 (transcode ''6f'') = ''01101111''"
    by simp
  with h show ?thesis
    by simp
qed

text \<open>
  C1 as stated fails: the rendering of the four-token byte field has 63 characters.
\<close>

theorem transcode_width_counterexample:
  "length (transcode ''4b 8d 05 6f'') = 63 \<and> length (transcode ''4b 8d 05 6f'') \<noteq> 35"
  by (simp add: length_transcode)

text \<open>
  C2 as stated fails: the second digit of the first token is converted too, and the
  rendering does not begin with the groups of the leading digits alone.
\<close>

theorem transcode_leading_only_counterexample:
  "take 9 (transcode ''4b 8d 05 6f'') = ''01001011 ''
   \<and> take 20 (transcode ''4b 8d 05 6f'') \<noteq> ''0100 1000 0000 0110 ''"
  by code_simp

subsection \<open>Classifying a line\<close>

lemma find_char_None: "find_char c s = None \<longleftrightarrow> c \<notin> set s"
  by (induction s) auto

lemma find_char_Some:
  "find_char c s = Some i \<Longrightarrow> i < length s \<and> s ! i = c \<and> c \<notin> set (take i s)"
proof (induction s arbitrary: i)
  case Nil
  then show ?case by simp
next
  case (Cons x xs)
  show ?case
  proof (cases "x = c")
    case True
    with Cons.prems show ?thesis by simp
  next
    case False
    with Cons.prems obtain j where j: "find_char c xs = Some j" "i = Suc j"
      by auto
    with Cons.IH [of j] False show ?thesis
      by simp
  qed
qed

lemma find_char_first: "c \<notin> set pre \<Longrightarrow> find_char c (pre @ c # suf) = Some (length pre)"
  by (induction pre) auto

lemma find_char_zero: "find_char c s = Some 0 \<longleftrightarrow> (\<exists>rest. s = c # rest)"
  by (cases s) auto

lemma find_from_0: "find_from s c 0 = find_char c s"
  by (simp add: find_from_def option.map_ident)

lemma wrap_sub_ge:
  fixes a b M :: nat
  assumes "b \<le> a" and "a < M"
  shows "(a + M - b) mod M = a - b"
proof -
  from assms(1) have "a + M - b = (a - b) + M"
    by arith
  then have "(a + M - b) mod M = ((a - b) + M) mod M"
    by (simp only:)
  also have "\<dots> = (a - b) mod M"
    by (rule mod_add_self2)
  also from assms(2) have "\<dots> = a - b"
    by (intro mod_less) arith
  finally show ?thesis .
qed

lemma size_sub_ge: "b \<le> a \<Longrightarrow> a < 2 ^ 64 \<Longrightarrow> size_sub a b = a - b"
  unfolding size_sub_def by (rule wrap_sub_ge)

lemma size_sub_0_1: "size_sub 0 (Suc 0) = 2 ^ 64 - 1"
  by (simp add: size_sub_def)

lemma classify_no_tab: "find_char TAB line = None \<Longrightarrow> classify line = Inr Plain"
  by (simp add: classify_def find_from_0)

lemma classify_tab_first:
  assumes "length line < npos" and "find_char TAB line = Some 0"
  shows "classify line = Inl (OutOfBounds (2 ^ 64 - 1))"
  using assms by (simp add: classify_def find_from_0 size_sub_0_1 string_at_def npos_def)

lemma classify_tab_later:
  assumes "length line < npos" and "find_char TAB line = Some pos" and "0 < pos"
  shows "classify line
         = (if line ! (pos - 1) \<noteq> COLON then Inr Plain else Inr (Instruction pos))"
proof -
  from assms(2) have "pos < length line"
    by (simp add: find_char_Some)
  with assms(1,3) have "size_sub pos 1 = pos - 1" "pos - 1 < length line"
    by (simp_all add: size_sub_ge npos_def)
  with assms(2) show ?thesis
    by (simp add: classify_def find_from_0 string_at_def)
qed

lemma plain_line_classify:
  assumes "length line < npos" and "plain_line line"
  shows "classify line = Inr Plain"
proof (cases "find_char TAB line")
  case None
  then show ?thesis by (rule classify_no_tab)
next
  case (Some pos)
  with assms(2) have "0 < pos" "line ! (pos - 1) \<noteq> COLON"
    by (simp_all add: plain_line_def)
  with assms(1) Some show ?thesis
    by (simp add: classify_tab_later)
qed

text \<open>
  C10. On a line that begins with a tab the test of line 109 reads \<^verbatim>\<open>line[pos-1]\<close> with
  \<^verbatim>\<open>pos\<close> equal to 0: the index wraps to the largest \<^verbatim>\<open>size_t\<close> and lies outside
  the string. The classification has a value exactly when the first tab, if there is one,
  is not at index 0. (A string is shorter than \<^verbatim>\<open>npos\<close>.)
\<close>

theorem classify_undefined_iff:
  assumes "length line < npos"
  shows "(classify line = Inl (OutOfBounds (2 ^ 64 - 1)) \<longleftrightarrow> (\<exists>rest. line = TAB # rest))
         \<and> ((\<exists>cls. classify line = Inr cls) \<longleftrightarrow> find_char TAB line \<noteq> Some 0)"
proof (cases "find_char TAB line")
  case None
  then have "classify line = Inr Plain"
    by (rule classify_no_tab)
  moreover from None have "\<not> (\<exists>rest. line = TAB # rest)"
    by (auto simp: find_char_None)
  ultimately show ?thesis
    using None by simp
next
  case (Some pos)
  show ?thesis
  proof (cases "pos = 0")
    case True
    with Some assms have "classify line = Inl (OutOfBounds (2 ^ 64 - 1))"
      by (simp add: classify_tab_first)
    with Some True show ?thesis
      by (simp add: find_char_zero [symmetric])
  next
    case False
    with Some assms have
      "classify line = (if line ! (pos - 1) \<noteq> COLON then Inr Plain else Inr (Instruction pos))"
      by (simp add: classify_tab_later)
    then have "\<exists>cls. classify line = Inr cls"
      by simp
    moreover from Some False have "\<not> (\<exists>rest. line = TAB # rest)"
      by (simp add: find_char_zero [symmetric])
    ultimately show ?thesis
      using Some False by auto
  qed
qed

theorem classify_undefined_iff_witness:
  "length (TAB # ''nop'') < npos
   \<and> classify (TAB # ''nop'') = Inl (OutOfBounds 18446744073709551615)
   \<and> find_char TAB (''0:'' @ TAB # ''c3'') \<noteq> Some 0
   \<and> (\<exists>cls. classify (''0:'' @ TAB # ''c3'') = Inr cls)"
proof -
  have a: "length (TAB # ''nop'') < npos" "length (''0:'' @ TAB # ''c3'') < npos"
    by (simp_all add: npos_def)
  have b: "find_char TAB (''0:'' @ TAB # ''c3'') \<noteq> Some 0"
    by simp
  from classify_undefined_iff [OF a(1)] classify_undefined_iff [OF a(2)] a b show ?thesis
    by simp
qed

text \<open>
  C3. The line that holds a tab and three letters has no character before its first tab, so
  the claim makes it a plain line. The code reads outside the string to classify it, and
  the line is neither passed through nor converted.
\<close>

theorem classify_leading_tab:
  "classify (TAB # ''nop'') = Inl (OutOfBounds 18446744073709551615)
   \<and> find_char TAB (TAB # ''nop'') = Some 0
   \<and> process_line True (TAB # ''nop'') = Inl (OutOfBounds 18446744073709551615)"
  by (simp add: process_line_def classify_def find_from_def size_sub_def string_at_def)

subsection \<open>Plain lines\<close>

lemma process_line_plain:
  "classify line = Inr Plain \<Longrightarrow>
   process_line full_output line = Inr (if full_output then line @ [NL] else [])"
  by (simp add: process_line_def)

lemma getline_line:
  assumes "NL \<notin> set l"
  shows "getline (l @ NL # rest) = Some (l, rest)"
proof -
  from assms have "takeWhile (\<lambda>c. c \<noteq> NL) (l @ NL # rest) = l"
    by (auto simp: takeWhile_tail)
  moreover from assms have "dropWhile (\<lambda>c. c \<noteq> NL) (l @ NL # rest) = NL # rest"
    by (auto simp: dropWhile_append3)
  ultimately show ?thesis
    by (simp add: getline_def)
qed

lemma getline_empty: "getline [] = None"
  by (simp add: getline_def)

lemma read_loop_plain_lines:
  assumes "\<And>l. l \<in> set ls \<Longrightarrow> NL \<notin> set l \<and> process_line True l = Inr (l @ [NL])"
  shows "read_loop True (unlines ls) cout = Inr (cout @ unlines ls)"
  using assms
proof (induction ls arbitrary: cout)
  case Nil
  show ?case
    by (subst read_loop.simps) (simp add: unlines_def getline_empty)
next
  case (Cons l ls)
  have l: "NL \<notin> set l" "process_line True l = Inr (l @ [NL])"
    using Cons.prems [of l] by simp_all
  have u: "unlines (l # ls) = l @ NL # unlines ls"
    by (simp add: unlines_def)
  have "read_loop True (unlines (l # ls)) cout = read_loop True (unlines ls) (cout @ l @ [NL])"
    unfolding u by (subst read_loop.simps) (simp add: getline_line l)
  also have "\<dots> = Inr ((cout @ l @ [NL]) @ unlines ls)"
    by (rule Cons.IH) (simp add: Cons.prems)
  finally show ?case
    by (simp add: u)
qed

text \<open>
  C5, as amended. A plain line whose first tab, if any, is not its first character is
  reproduced with a newline after it in full-output mode and yields nothing in binary-only
  mode. Hence a file in which every line is such a plain line and ends with a newline is
  reproduced unchanged by full-output mode.
\<close>

theorem plain_lines_pass_through:
  "(length line < npos \<and> plain_line line
      \<longrightarrow> process_line True line = Inr (line @ [NL]) \<and> process_line False line = Inr [])
   \<and> ((\<forall>l \<in> set ls. length l < npos \<and> plain_line l \<and> NL \<notin> set l)
        \<and> map_of fs filename = Some (unlines ls)
      \<longrightarrow> process_objdump_file fs filename True
          = Inr \<lparr>stdout = unlines ls, stderr = [], exit_code = 0\<rparr>)"
proof (intro conjI impI)
  assume "length line < npos \<and> plain_line line"
  then have "classify line = Inr Plain"
    by (simp add: plain_line_classify)
  then show "process_line True line = Inr (line @ [NL])" "process_line False line = Inr []"
    by (simp_all add: process_line_plain)
next
  assume a: "(\<forall>l \<in> set ls. length l < npos \<and> plain_line l \<and> NL \<notin> set l)
             \<and> map_of fs filename = Some (unlines ls)"
  have "read_loop True (unlines ls) [] = Inr ([] @ unlines ls)"
  proof (rule read_loop_plain_lines)
    fix l assume "l \<in> set ls"
    with a have "length l < npos" "plain_line l" "NL \<notin> set l"
      by simp_all
    then show "NL \<notin> set l \<and> process_line True l = Inr (l @ [NL])"
      by (simp add: plain_line_classify process_line_plain)
  qed
  with a show "process_objdump_file fs filename True
               = Inr \<lparr>stdout = unlines ls, stderr = [], exit_code = 0\<rparr>"
    by (simp add: process_objdump_file_def)
qed

theorem plain_lines_pass_through_witness:
  "length ''08049000 <start>:'' < npos \<and> plain_line ''08049000 <start>:''
   \<and> NL \<notin> set ''08049000 <start>:''
   \<and> map_of [(''dump'', ''08049000 <start>:\<newline>'')] ''dump'' = Some (unlines [''08049000 <start>:''])
   \<and> process_line True ''08049000 <start>:'' = Inr ''08049000 <start>:\<newline>''
   \<and> process_line False ''08049000 <start>:'' = Inr []
   \<and> process_objdump_file [(''dump'', ''08049000 <start>:\<newline>'')] ''dump'' True
       = Inr \<lparr>stdout = ''08049000 <start>:\<newline>'', stderr = [], exit_code = 0\<rparr>"
proof -
  have a: "length ''08049000 <start>:'' < npos" "plain_line ''08049000 <start>:''"
    "NL \<notin> set ''08049000 <start>:''"
    by (simp_all add: npos_def plain_line_def)
  have u: "unlines [''08049000 <start>:''] = ''08049000 <start>:\<newline>''"
    by (simp add: unlines_def)
  from plain_lines_pass_through [of "''08049000 <start>:''" "[''08049000 <start>:'']"
      "[(''dump'', ''08049000 <start>:\<newline>'')]" "''dump''"] a u
  show ?thesis
    by simp
qed

text \<open>
  C5 as stated fails on a file that holds one plain line and no final newline: the output
  has a newline the input lacks.
\<close>

theorem unterminated_file_counterexample:
  "plain_line ''abc''
   \<and> process_objdump_file [(''dump'', ''abc'')] ''dump'' True
       = Inr \<lparr>stdout = ''abc\<newline>'', stderr = [], exit_code = 0\<rparr>
   \<and> ''abc\<newline>'' \<noteq> ''abc''"
  by (simp add: plain_line_def process_objdump_file_def getline_def process_line_def
      classify_def find_from_def)

subsection \<open>The command line and the file that cannot be opened\<close>

text \<open>
  C7. With no argument the usage text goes to standard output and the exit code is 0. With
  a first argument other than \<open>-b\<close> and at least one more argument, and with \<open>-b\<close> alone,
  the usage text is printed after a message that is not empty and the exit code is 1. (The
  message is written twice, see line 67.)
\<close>

theorem usage_exit_codes:
  "main fs [prog] = Inr \<lparr>stdout = usage_text, stderr = [], exit_code = 0\<rparr>
   \<and> (flag \<noteq> ''-b'' \<longrightarrow>
        main fs (prog # flag # extra # others)
        = Inr \<lparr>stdout = (''Unknown option: '' @ flag) @ (''Unknown option: '' @ flag) @ usage_text,
               stderr = [], exit_code = 1\<rparr>)
   \<and> main fs [prog, ''-b'']
       = Inr \<lparr>stdout = ''Missing objdump_output_file.'' @ ''Missing objdump_output_file.'' @ usage_text,
              stderr = [], exit_code = 1\<rparr>"
  by (intro conjI impI) (simp_all add: main_def usage_def Let_def)

theorem usage_exit_codes_witness:
  "''-x'' \<noteq> ''-b''
   \<and> main [] [''objdump_to_bindump'', ''-x'', ''a.dump'']
       = Inr \<lparr>stdout = ''Unknown option: -xUnknown option: -x'' @ usage_text,
              stderr = [], exit_code = 1\<rparr>"
  using usage_exit_codes [of "[]" "''objdump_to_bindump''" "''-x''" "''a.dump''" "[]"]
  by simp

text \<open>
  C8. When the file cannot be opened, the error stream names the file, the exit code is 1
  and nothing is written to standard output, both for the function and for the program
  called with the file alone or after \<open>-b\<close>.
\<close>

theorem open_failure:
  assumes "map_of fs filename = None"
  shows "process_objdump_file fs filename full_output
         = Inr \<lparr>stdout = [], stderr = ''Failed to open '' @ filename @ '' for input.\<newline>'',
                exit_code = 1\<rparr>
         \<and> (filename \<noteq> ''-b'' \<longrightarrow>
              main fs [prog, filename]
              = Inr \<lparr>stdout = [], stderr = ''Failed to open '' @ filename @ '' for input.\<newline>'',
                     exit_code = 1\<rparr>)
         \<and> main fs (prog # ''-b'' # filename # others)
             = Inr \<lparr>stdout = [], stderr = ''Failed to open '' @ filename @ '' for input.\<newline>'',
                    exit_code = 1\<rparr>"
  using assms by (intro conjI impI) (simp_all add: main_def process_objdump_file_def Let_def)

theorem open_failure_witness:
  "map_of [(''a.dump'', ''x'')] ''b.dump'' = None \<and> ''b.dump'' \<noteq> ''-b''
   \<and> main [(''a.dump'', ''x'')] [''objdump_to_bindump'', ''b.dump'']
       = Inr \<lparr>stdout = [], stderr = ''Failed to open b.dump for input.\<newline>'', exit_code = 1\<rparr>"
proof -
  have a: "map_of [(''a.dump'', ''x'')] ''b.dump'' = None"
    by simp
  from open_failure [OF a, of True "''objdump_to_bindump''" "[]"] a show ?thesis
    by simp
qed


subsection \<open>Instruction lines\<close>

text \<open>
  What the code writes for a line with a colon before its first tab, in both modes: with a
  second tab, and without one.
\<close>

lemma size_add_less: "a + b < 2 ^ 64 \<Longrightarrow> size_add a b = a + b"
  by (simp add: size_add_def)

lemma size_sub_succ: "size_add (size_sub a (a + 1)) 1 = 0"
proof -
  have "a + 2 ^ 64 - (a + 1) = (2 ^ 64 - 1 :: nat)"
    by simp
  then have "size_sub a (a + 1) = 2 ^ 64 - 1"
    by (simp add: size_sub_def)
  then show ?thesis
    by (simp add: size_add_def)
qed

lemma instruction_line_start:
  assumes "line = hdr @ COLON # TAB # tail" and "TAB \<notin> set hdr" and "length line < npos"
  shows "classify line = Inr (Instruction (length hdr + 1))"
    and "size_add (length hdr + 1) 1 = length hdr + 2"
    and "substr line 0 (length hdr + 2) = Inr (hdr @ [COLON, TAB])"
    and "drop (length hdr + 2) line = tail"
proof -
  have split: "line = (hdr @ [COLON]) @ TAB # tail"
    using assms(1) by simp
  have "TAB \<notin> set (hdr @ [COLON])"
    using assms(2) by simp
  then have "find_char TAB ((hdr @ [COLON]) @ TAB # tail) = Some (length (hdr @ [COLON]))"
    by (rule find_char_first)
  then have ft: "find_char TAB line = Some (length hdr + 1)"
    using split by simp
  have "line ! (length hdr + 1 - 1) = COLON"
    using assms(1) by simp
  with classify_tab_later [OF assms(3) ft]
  show "classify line = Inr (Instruction (length hdr + 1))"
    by simp
  have "length hdr + 2 \<le> length line"
    using assms(1) by simp
  with assms(3) have "length hdr + 2 < 2 ^ 64"
    by (simp add: npos_def)
  then show "size_add (length hdr + 1) 1 = length hdr + 2"
    by (simp add: size_add_def)
  show "substr line 0 (length hdr + 2) = Inr (hdr @ [COLON, TAB])"
    using assms(1) by (simp add: substr_def)
  show "drop (length hdr + 2) line = tail"
    using assms(1) by simp
qed

lemma process_line_two_tabs:
  assumes line: "line = hdr @ COLON # TAB # field @ TAB # trailer"
    and hdr: "TAB \<notin> set hdr" and field: "TAB \<notin> set field" and len: "length line < npos"
  shows "process_line full_output line
         = Inr ((if full_output then hdr @ [COLON, TAB] else [])
                @ transcode (field @ [TAB])
                @ (if full_output then TAB # trailer else []) @ [NL])"
proof -
  let ?pos = "length hdr + 2"
  let ?end = "?pos + length field"
  have line': "line = hdr @ COLON # TAB # (field @ TAB # trailer)"
    using line by simp
  note start = instruction_line_start [OF line' hdr len]
  have "find_char TAB (field @ TAB # trailer) = Some (length field)"
    using field by (rule find_char_first)
  then have e: "find_from line TAB ?pos = Some ?end"
    unfolding find_from_def start(4) by simp
  have "?end < length line"
    using line by simp
  with len have lt: "?end < 2 ^ 64" "length field + 1 < 2 ^ 64"
    by (simp_all add: npos_def)
  then have "size_sub ?end ?pos = length field"
    by (simp add: size_sub_ge)
  with lt have n: "size_add (size_sub ?end ?pos) 1 = length field + 1"
    by (simp add: size_add_less)
  have h: "substr line ?pos (length field + 1) = Inr (field @ [TAB])"
    using line by (simp add: substr_def)
  have "drop ?end line = TAB # trailer"
    using line by simp
  moreover have "length (TAB # trailer) < npos"
    using line len by simp
  ultimately have r: "substr line ?end npos = Inr (TAB # trailer)"
    using \<open>?end < length line\<close> by (simp add: substr_def)
  have "convert_line full_output line (length hdr + 1)
        = Inr ((if full_output then hdr @ [COLON, TAB] else [])
               @ transcode (field @ [TAB])
               @ (if full_output then TAB # trailer else []) @ [NL])"
    unfolding convert_line_def start(2) Let_def e option.case n h r start(3)
    by simp
  then show ?thesis
    by (simp add: process_line_def start(1))
qed

lemma process_line_continuation:
  assumes line: "line = hdr @ COLON # TAB # field"
    and hdr: "TAB \<notin> set hdr" and field: "TAB \<notin> set field" and len: "length line < npos"
  shows "process_line full_output line
         = Inr ((if full_output then hdr @ [COLON, TAB] else [])
                @ transcode field
                @ (if full_output then [last line] else []) @ [NL])"
proof -
  let ?pos = "length hdr + 2"
  let ?end = "length hdr + 1 + length field"
  note start = instruction_line_start [OF line hdr len]
  have size: "length line = ?pos + length field"
    using line by simp
  have "find_char TAB field = None"
    using field by (simp add: find_char_None)
  then have e: "find_from line TAB ?pos = None"
    unfolding find_from_def start(4) by simp
  from len have "size_sub (length line) 1 = length line - 1"
    by (intro size_sub_ge) (simp_all add: size npos_def)
  then have s: "size_sub (length line) 1 = ?end"
    by (simp add: size)
  have n: "size_add (size_sub ?end ?pos) 1 = length field"
  proof (cases "field = []")
    case True
    have "size_add (size_sub (length hdr + 1) (length hdr + 1 + 1)) 1 = 0"
      by (rule size_sub_succ)
    with True show ?thesis
      by (simp add: numeral_2_eq_2)
  next
    case False
    then have pos: "0 < length field"
      by simp
    from len have lt: "?end < 2 ^ 64"
      by (simp add: size npos_def)
    from pos have "?pos \<le> ?end"
      by arith
    then have "size_sub ?end ?pos = ?end - ?pos"
      using lt by (rule size_sub_ge)
    then have "size_sub ?end ?pos = length field - 1"
      by simp
    moreover from lt pos have "size_add (length field - 1) 1 = length field"
      by (simp add: size_add_less)
    ultimately show ?thesis
      by simp
  qed
  have h: "substr line ?pos (length field) = Inr field"
    using line by (simp add: substr_def)
  have "line \<noteq> []"
    using line by simp
  then have "drop (length line - 1) line = [last line]"
    by (metis append_butlast_last_id append_eq_conv_conj length_butlast)
  then have "drop ?end line = [last line]"
    by (simp add: size)
  then have r: "substr line ?end npos = Inr [last line]"
    by (simp add: substr_def size npos_def)
  have "convert_line full_output line (length hdr + 1)
        = Inr ((if full_output then hdr @ [COLON, TAB] else [])
               @ transcode field
               @ (if full_output then [last line] else []) @ [NL])"
    unfolding convert_line_def start(2) Let_def e option.case s n h r start(3)
    by simp
  then show ?thesis
    by (simp add: process_line_def start(1))
qed

lemmas run_defs = process_line_def classify_def find_from_def size_sub_def size_add_def
  string_at_def convert_line_def substr_def npos_def

text \<open>
  C4. On a continuation line, which has no second tab, the claim has an empty trailer.
  The code sets \<^verbatim>\<open>end_pos\<close> to the index of the last character (line 118) and prints the
  line from there (line 146): the last character of the byte field comes again after the
  rendering.
\<close>

theorem continuation_line_trailer:
  "find_from (''0:'' @ TAB # ''c3'') TAB 3 = None
   \<and> process_line True (''0:'' @ TAB # ''c3'')
       = Inr (''0:'' @ [TAB] @ transcode ''c3'' @ ''3'' @ [NL])
   \<and> process_line True (''0:'' @ TAB # ''c3'')
       \<noteq> Inr (''0:'' @ [TAB] @ transcode ''c3'' @ [] @ [NL])"
  by (simp add: run_defs)

end
